theory Spec2Isabelle
  imports Main
begin

section \<open>Document model (frontend/src/types/document.ts)\<close>

text \<open>
  The TypeScript string enum \<open>DocumentStatus\<close>: one constructor per member, in the
  order of the source, and the string each member stands for.
\<close>

datatype DocumentStatus =
    UPLOADED
  | DETECTING_TYPE
  | EXTRACTING_BLOCKS
  | CLASSIFYING
  | ANALYZING_CONTENT
  | FILTERED_OUT
  | CHUNKING
  | SUMMARIZING
  | COMPLETED
  | FAILED

fun status_value :: "DocumentStatus \<Rightarrow> string" where
  "status_value UPLOADED = ''uploaded''"
| "status_value DETECTING_TYPE = ''detecting_type''"
| "status_value EXTRACTING_BLOCKS = ''extracting_blocks''"
| "status_value CLASSIFYING = ''classifying''"
| "status_value ANALYZING_CONTENT = ''analyzing_content''"
| "status_value FILTERED_OUT = ''filtered_out''"
| "status_value CHUNKING = ''chunking''"
| "status_value SUMMARIZING = ''summarizing''"
| "status_value COMPLETED = ''completed''"
| "status_value FAILED = ''failed''"

text \<open>
  The interface \<open>Document\<close>. Numbers that are identifiers and sizes are integers,
  a field of type \<open>T | null\<close> is an option, timestamps stay the strings they are.
  The field \<open>id\<close> is \<open>id'\<close> here, apart from the identity function. No function of
  the source reads \<open>filter_confidence\<close>, a fraction there and an integer here.
\<close>

record Document =
  id' :: int
  case_id :: int
  filename :: string
  file_type :: string
  file_size :: int
  minio_bucket :: string
  minio_key :: string
  status :: DocumentStatus
  processing_error :: "string option"
  classification :: "string option"
  content_category :: "string option"
  filter_confidence :: "int option"
  filter_reasoning :: "string option"
  has_summary :: bool
  summarized_at :: "string option"
  created_at :: string
  updated_at :: string

text \<open>
  \<open>getStatusLabel\<close>: the table \<open>labels\<close>, then \<open>labels[status] || status\<close>, where an
  empty label would be falsy and give the status string itself.
\<close>

fun labels :: "DocumentStatus \<Rightarrow> string" where
  "labels UPLOADED = ''Uploaded''"
| "labels DETECTING_TYPE = ''Detecting Type''"
| "labels EXTRACTING_BLOCKS = ''Extracting Content''"
| "labels CLASSIFYING = ''Classifying''"
| "labels ANALYZING_CONTENT = ''Analyzing''"
| "labels FILTERED_OUT = ''Filtered Out''"
| "labels CHUNKING = ''Chunking''"
| "labels SUMMARIZING = ''Summarizing''"
| "labels COMPLETED = ''Completed''"
| "labels FAILED = ''Failed''"

definition getStatusLabel :: "DocumentStatus \<Rightarrow> string" where
  "getStatusLabel s = (if labels s \<noteq> [] then labels s else status_value s)"

text \<open>\<open>getStatusColor\<close>: the chain of early returns, in the order of the source.\<close>

definition getStatusColor :: "DocumentStatus \<Rightarrow> string" where
  "getStatusColor s =
     (if s = COMPLETED then ''success''
      else if s = FAILED then ''error''
      else if s = FILTERED_OUT then ''neutral''
      else if s \<in> set
          [EXTRACTING_BLOCKS, CLASSIFYING, ANALYZING_CONTENT, CHUNKING, SUMMARIZING]
        then ''info''
      else ''warning'')"

section \<open>Numbers as text\<close>

text \<open>
  JavaScript turns an integer into its decimal digits when it is concatenated into a
  string or a template literal, with a leading minus sign below zero (for every integer
  below \<open>10^21\<close> in absolute value; larger ones are printed with an exponent).
\<close>

definition digit_char :: "nat \<Rightarrow> char" where
  "digit_char d = ''0123456789'' ! d"

function show_nat :: "nat \<Rightarrow> string" where
  "show_nat n = (if n < 10 then [digit_char n] else show_nat (n div 10) @ [digit_char (n mod 10)])"
  by pat_completeness auto
termination
  by (relation "measure (\<lambda>n. n)") auto

declare show_nat.simps [simp del]

definition show_int :: "int \<Rightarrow> string" where
  "show_int i = (if i < 0 then CHR ''-'' # show_nat (nat (- i)) else show_nat (nat i))"

text \<open>
  \<open>(num / den).toFixed(1)\<close> for a quotient that is not negative: the integer \<open>t\<close>
  nearest to ten times the quotient, the larger one on a tie, printed with one decimal.
  The divisors of the source are powers of two, so the quotient is exact in a double
  for every integer below \<open>2^53\<close>.
\<close>

definition toFixed1 :: "nat \<Rightarrow> nat \<Rightarrow> string" where
  "toFixed1 num den =
     (let t = (20 * num + den) div (2 * den)
      in show_nat (t div 10) @ ''.'' @ show_nat (t mod 10))"

section \<open>The document queue (frontend/src/components/cases/DocumentQueue.tsx)\<close>

text \<open>\<open>formatFileSize\<close>, with its two early returns.\<close>

definition formatFileSize :: "int \<Rightarrow> string" where
  "formatFileSize bytes =
     (if bytes < 1024 then show_int bytes @ '' B''
      else if bytes < 1024 * 1024 then toFixed1 (nat bytes) 1024 @ '' KB''
      else toFixed1 (nat bytes) (1024 * 1024) @ '' MB'')"

text \<open>The unit of a formatted size: what follows its last space.\<close>

definition unit_of :: "string \<Rightarrow> string" where
  "unit_of s = rev (takeWhile (\<lambda>c. c \<noteq> CHR '' '') (rev s))"

text \<open>
  The effect that polls: \<open>hasProcessing\<close> is \<open>documents.some(...)\<close>; without a
  processing document the effect returns before it sets the interval, otherwise
  \<open>loadDocuments\<close> runs every 5000 milliseconds.
\<close>

definition hasProcessing :: "Document list \<Rightarrow> bool" where
  "hasProcessing documents =
     list_ex (\<lambda>doc. status doc \<noteq> COMPLETED \<and> status doc \<noteq> FAILED \<and>
                     status doc \<noteq> FILTERED_OUT) documents"

definition refresh_interval :: "Document list \<Rightarrow> nat option" where
  "refresh_interval documents = (if \<not> hasProcessing documents then None else Some 5000)"

text \<open>
  A value of type \<open>string | null\<close> in a condition: \<open>null\<close> and the empty string are
  falsy, every other string is truthy. \<open>guarded c x\<close> is the JSX \<open>c && (block of x)\<close>.
\<close>

definition truthy :: "string option \<Rightarrow> bool" where
  "truthy v = (case v of None \<Rightarrow> False | Some s \<Rightarrow> s \<noteq> [])"

definition text_of :: "string option \<Rightarrow> string" where
  "text_of v = (case v of None \<Rightarrow> [] | Some s \<Rightarrow> s)"

definition guarded :: "bool \<Rightarrow> 'a \<Rightarrow> 'a option" where
  "guarded c x = (if c then Some x else None)"

text \<open>
  What one row of the list shows for a document: each optional block is \<open>None\<close> when
  its guard is false and the text it displays otherwise. The classification and the
  category sit in a block guarded by \<open>classification || content_category\<close>, which
  holds whenever one of their own guards does.
\<close>

record DocumentRow =
  row_size :: string
  row_classification :: "string option"
  row_category :: "string option"
  row_error :: "string option"
  row_filtered :: "string option"
  row_badge_color :: string
  row_badge_label :: string
  row_processing :: bool
  row_summary_ready :: bool

definition render_row :: "Document \<Rightarrow> DocumentRow" where
  "render_row doc =
     \<lparr> row_size = formatFileSize (file_size doc),
       row_classification =
         guarded (truthy (classification doc)) (text_of (classification doc)),
       row_category =
         guarded (truthy (content_category doc)) (text_of (content_category doc)),
       row_error =
         guarded (truthy (processing_error doc)) (text_of (processing_error doc)),
       row_filtered =
         guarded (truthy (filter_reasoning doc) \<and> status doc = FILTERED_OUT)
           (text_of (filter_reasoning doc)),
       row_badge_color = getStatusColor (status doc),
       row_badge_label = getStatusLabel (status doc),
       row_processing =
         (status doc \<noteq> COMPLETED \<and> status doc \<noteq> FAILED \<and> status doc \<noteq> FILTERED_OUT),
       row_summary_ready = has_summary doc \<rparr>"

text \<open>A document to evaluate the definitions on.\<close>

definition sample_document :: Document where
  "sample_document =
     \<lparr> id' = 7, case_id = 3, filename = ''lease.txt'', file_type = ''txt'',
       file_size = 2048, minio_bucket = ''documents'', minio_key = ''3/7/lease.txt'',
       status = FAILED, processing_error = Some ''extraction: unreadable file'',
       classification = None, content_category = None, filter_confidence = None,
       filter_reasoning = None, has_summary = False, summarized_at = None,
       created_at = ''2025-01-01T00:00:00Z'', updated_at = ''2025-01-01T00:00:05Z'' \<rparr>"

section \<open>The documents API (lib/api/documents.ts)\<close>

text \<open>
  \<open>documentsApi.list(caseId, status?, limit = 100, offset = 0)\<close>: an argument left out
  (or \<open>undefined\<close>) is \<open>None\<close>, and a parameter with a default takes it then. The model
  is the endpoint the method hands to \<open>api.get\<close>; \<open>if (status)\<close> is the truthiness of
  a string.
\<close>

definition with_default :: "'a \<Rightarrow> 'a option \<Rightarrow> 'a" where
  "with_default d v = (case v of None \<Rightarrow> d | Some x \<Rightarrow> x)"

definition list_endpoint :: "int \<Rightarrow> string option \<Rightarrow> int option \<Rightarrow> int option \<Rightarrow> string" where
  "list_endpoint caseId status_arg limit_arg offset_arg =
     (let limit = with_default 100 limit_arg;
          offset = with_default 0 offset_arg;
          endpoint = ''/documents/?case_id='' @ show_int caseId @ ''&limit='' @ show_int limit
                       @ ''&offset='' @ show_int offset
      in if truthy status_arg then endpoint @ ''&status='' @ text_of status_arg else endpoint)"

text \<open>
  Reading a URL's query back: the text after the first \<open>?\<close>, cut at every \<open>&\<close> (as
  \<open>String.prototype.split\<close> cuts), each piece a key up to its first \<open>=\<close> and the value
  after it.
\<close>

fun split_on :: "char \<Rightarrow> string \<Rightarrow> string list" where
  "split_on c [] = [[]]"
| "split_on c (x # xs) =
     (if x = c then [] # split_on c xs
      else (case split_on c xs of [] \<Rightarrow> [[x]] | y # ys \<Rightarrow> (x # y) # ys))"

definition param_of :: "string \<Rightarrow> string \<times> string" where
  "param_of seg =
     (takeWhile (\<lambda>c. c \<noteq> CHR ''='') seg, drop 1 (dropWhile (\<lambda>c. c \<noteq> CHR ''='') seg))"

definition query_params :: "string \<Rightarrow> (string \<times> string) list" where
  "query_params url =
     map param_of (split_on CHR ''&'' (drop 1 (dropWhile (\<lambda>c. c \<noteq> CHR ''?'') url)))"

text \<open>The three parameters every list request carries, in the order of the template.\<close>

definition base_params :: "int \<Rightarrow> int option \<Rightarrow> int option \<Rightarrow> (string \<times> string) list" where
  "base_params caseId limit_arg offset_arg =
     [(''case_id'', show_int caseId), (''limit'', show_int (with_default 100 limit_arg)),
      (''offset'', show_int (with_default 0 offset_arg))]"

section \<open>The API client (frontend/src/lib/api.ts)\<close>

text \<open>
  A JavaScript value as \<open>response.json()\<close> yields it, and \<open>undefined\<close> for a variable
  never assigned or a property an object does not have. An object is the list of its
  own properties. Numbers are integers here: only whether a number is zero matters to
  the client.
\<close>

datatype jsvalue =
    JUndefined
  | JNull
  | JBool bool
  | JNum int
  | JStr string
  | JArr "jsvalue list"
  | JObj "(string \<times> jsvalue) list"




text \<open>
  \<open>String(v)\<close>, the conversion the \<open>Error\<close> constructor applies to its message. An
  array is its elements joined by commas, \<open>null\<close> and \<open>undefined\<close> elements giving the
  empty string; every object is \<open>[object Object]\<close>.
\<close>

fun js_to_string :: "jsvalue \<Rightarrow> string" and js_join :: "jsvalue list \<Rightarrow> string" where
  "js_to_string JUndefined = ''undefined''"
| "js_to_string JNull = ''null''"
| "js_to_string (JBool b) = (if b then ''true'' else ''false'')"
| "js_to_string (JNum n) = show_int n"
| "js_to_string (JStr s) = s"
| "js_to_string (JArr vs) = js_join vs"
| "js_to_string (JObj kvs) = ''[object Object]''"
| "js_join [] = []"
| "js_join [v] = (if v = JNull \<or> v = JUndefined then [] else js_to_string v)"
| "js_join (v # w # vs) =
     (if v = JNull \<or> v = JUndefined then [] else js_to_string v) @ '','' @ js_join (w # vs)"






section \<open>The document processing orchestrator\<close>

text \<open>
  Modelled from the spec: the stage order of the Document Processing Orchestrator. The
  repository's notes name \<open>orchestrators/document_processor.py\<close>, which is not among
  the source files. In the fixed stage order each status is followed by the next one;
  the three absorbing statuses have no next stage.
\<close>

fun next_stage :: "DocumentStatus \<Rightarrow> DocumentStatus option" where
  "next_stage UPLOADED = Some DETECTING_TYPE"
| "next_stage DETECTING_TYPE = Some EXTRACTING_BLOCKS"
| "next_stage EXTRACTING_BLOCKS = Some CLASSIFYING"
| "next_stage CLASSIFYING = Some ANALYZING_CONTENT"
| "next_stage ANALYZING_CONTENT = Some CHUNKING"
| "next_stage CHUNKING = Some SUMMARIZING"
| "next_stage SUMMARIZING = Some COMPLETED"
| "next_stage COMPLETED = None"
| "next_stage FAILED = None"
| "next_stage FILTERED_OUT = None"

text \<open>
  Modelled from the spec: the absorbing statuses of the orchestrator, \<open>completed\<close>,
  \<open>failed\<close> and the early exit \<open>filtered_out\<close>.
\<close>

definition is_terminal :: "DocumentStatus \<Rightarrow> bool" where
  "is_terminal s = (s = COMPLETED \<or> s = FAILED \<or> s = FILTERED_OUT)"

text \<open>
  Modelled from the spec: how a stage of the orchestrator ends. Either its output is
  persisted (with the content analyzer's verdict \<open>accept\<close>, which only the
  content-analysis stage produces and reads), or it raises an unrecoverable error; a
  timeout counts as such an error.
\<close>

datatype stage_result = Persisted bool | Raised

text \<open>
  Modelled from the spec: one status update of the orchestrator's \<open>process\<close>. No
  transition leaves an absorbing status (a retry is an operator's command, not a step of
  the pipeline); an error sets \<open>failed\<close>; a rejection by the content analyzer sets
  \<open>filtered_out\<close>; otherwise the status advances to the next stage.
\<close>

definition advance :: "DocumentStatus \<Rightarrow> stage_result \<Rightarrow> DocumentStatus option" where
  "advance s res =
     (if is_terminal s then None
      else (case res of
              Raised \<Rightarrow> Some FAILED
            | Persisted accept \<Rightarrow>
                if s = ANALYZING_CONTENT \<and> \<not> accept then Some FILTERED_OUT else next_stage s))"

text \<open>
  Modelled from the spec: \<open>process\<close> drives a document forward from its current status,
  one stage result after the other, and stops at an absorbing status. The result is the
  list of statuses the document goes through.
\<close>

fun process :: "DocumentStatus \<Rightarrow> stage_result list \<Rightarrow> DocumentStatus list" where
  "process s [] = [s]"
| "process s (res # rest) =
     (case advance s res of None \<Rightarrow> [s] | Some s' \<Rightarrow> s # process s' rest)"








section \<open>The set of status values\<close>

lemma DocumentStatus_UNIV:
  "(UNIV :: DocumentStatus set) =
     {UPLOADED, DETECTING_TYPE, EXTRACTING_BLOCKS, CLASSIFYING, ANALYZING_CONTENT,
      FILTERED_OUT, CHUNKING, SUMMARIZING, COMPLETED, FAILED}"
proof -
  have "s \<in> {UPLOADED, DETECTING_TYPE, EXTRACTING_BLOCKS, CLASSIFYING, ANALYZING_CONTENT,
      FILTERED_OUT, CHUNKING, SUMMARIZING, COMPLETED, FAILED}" for s
    by (cases s) simp_all
  then show ?thesis by blast
qed

text \<open>
  Claim C1. The strings of the members of \<open>DocumentStatus\<close> are exactly the ten values
  uploaded, detecting_type, extracting_blocks, classifying, analyzing_content,
  filtered_out, chunking, summarizing, completed and failed: each member has one of
  these strings, each of these strings belongs to a member, and the ten are different
  (no two members share a string).
\<close>

theorem status_values_exact:
  "range status_value =
     {''uploaded'', ''detecting_type'', ''extracting_blocks'', ''classifying'',
      ''analyzing_content'', ''filtered_out'', ''chunking'', ''summarizing'',
      ''completed'', ''failed''}
   \<and> card (range status_value) = 10"
proof -
  have r: "range status_value =
     {''uploaded'', ''detecting_type'', ''extracting_blocks'', ''classifying'',
      ''analyzing_content'', ''filtered_out'', ''chunking'', ''summarizing'',
      ''completed'', ''failed''}"
    unfolding DocumentStatus_UNIV by simp
  have "card (range status_value) = 10"
    unfolding r by simp
  with r show ?thesis by simp
qed

section \<open>Helper facts on numbers as text\<close>

lemma show_nat_digit: "n < 10 \<Longrightarrow> show_nat n = [digit_char n]"
  by (simp add: show_nat.simps)

lemma show_nat_step:
  "\<not> n < 10 \<Longrightarrow> show_nat n = show_nat (n div 10) @ [digit_char (n mod 10)]"
  by (subst show_nat.simps) simp

lemma unit_of_append: "CHR '' '' \<notin> set u \<Longrightarrow> unit_of (a @ CHR '' '' # u) = u"
proof -
  assume u: "CHR '' '' \<notin> set u"
  then have "takeWhile (\<lambda>c. c \<noteq> CHR '' '') (rev u @ CHR '' '' # rev a) = rev u"
    by (subst takeWhile_append2) auto
  then show ?thesis by (simp add: unit_of_def)
qed

section \<open>The document queue\<close>

text \<open>
  Claim C4. A document is still processing exactly when its status is none of
  completed, failed and filtered_out: the spinner of a row is shown if and only if the
  status is none of the three, \<open>hasProcessing\<close> holds if and only if some document of
  the list has such a status, and the list is reloaded every 5000 milliseconds if and
  only if \<open>hasProcessing\<close> holds.
\<close>

theorem still_processing_iff:
  "row_processing (render_row doc) = (status doc \<notin> {COMPLETED, FAILED, FILTERED_OUT})
   \<and> hasProcessing documents =
       (\<exists>doc \<in> set documents. status doc \<notin> {COMPLETED, FAILED, FILTERED_OUT})
   \<and> (refresh_interval documents = Some 5000) = hasProcessing documents
   \<and> (refresh_interval documents = None) = (\<not> hasProcessing documents)"
  by (simp add: render_row_def hasProcessing_def refresh_interval_def list_ex_iff)

lemma getStatusColor_error_iff: "(getStatusColor s = ''error'') = (s = FAILED)"
  by (cases s) (simp_all add: getStatusColor_def)

text \<open>
  Claim C6, as the code has it. The label of the failed status is \<open>Failed\<close>, which is not
  empty; \<open>getStatusColor\<close> gives \<open>error\<close> for the failed status and for no other; a
  row shows the error text \<open>e\<close> if and only if \<open>processing_error\<close> is the string \<open>e\<close> and
  \<open>e\<close> is not empty, and shows no error block if and only if \<open>processing_error\<close> is null
  or the empty string.
\<close>

theorem failed_status_display:
  "getStatusLabel FAILED = ''Failed''
   \<and> getStatusLabel FAILED \<noteq> []
   \<and> (getStatusColor s = ''error'') = (s = FAILED)
   \<and> (row_error (render_row doc) = Some e) = (processing_error doc = Some e \<and> e \<noteq> [])
   \<and> (row_error (render_row doc) = None) =
       (processing_error doc = None \<or> processing_error doc = Some [])"
proof -
  have l: "getStatusLabel FAILED = ''Failed''"
    by (simp add: getStatusLabel_def)
  have r: "(row_error (render_row doc) = Some e) = (processing_error doc = Some e \<and> e \<noteq> [])"
    by (cases "processing_error doc")
       (auto simp: render_row_def guarded_def truthy_def text_of_def)
  have n: "(row_error (render_row doc) = None) =
       (processing_error doc = None \<or> processing_error doc = Some [])"
    by (cases "processing_error doc")
       (auto simp: render_row_def guarded_def truthy_def text_of_def)
  from l r n getStatusColor_error_iff [of s] show ?thesis by simp
qed

text \<open>
  Claim C6 as stated asks for the error text of every document whose
  \<open>processing_error\<close> is not null. The empty string is not null, and the guard
  \<open>doc.processing_error && ...\<close> is false for it: no error block is rendered.
\<close>

theorem empty_error_not_rendered:
  "processing_error (sample_document\<lparr>processing_error := Some []\<rparr>) \<noteq> None
   \<and> row_error (render_row (sample_document\<lparr>processing_error := Some []\<rparr>)) = None"
  by (simp add: render_row_def guarded_def truthy_def)

text \<open>
  Claim C7, as the code has it. \<open>getStatusColor\<close> gives \<open>neutral\<close>, not \<open>error\<close>, for
  filtered_out; a row shows the filter reasoning \<open>r\<close> if and only if the status is
  filtered_out, \<open>filter_reasoning\<close> is the string \<open>r\<close> and \<open>r\<close> is not empty; the
  reasoning block does not depend on \<open>processing_error\<close>, and the error block depends
  neither on the status nor on \<open>filter_reasoning\<close>.
\<close>

theorem filtered_out_display:
  "getStatusColor FILTERED_OUT = ''neutral''
   \<and> getStatusColor FILTERED_OUT \<noteq> ''error''
   \<and> (row_filtered (render_row doc) = Some r) =
       (status doc = FILTERED_OUT \<and> filter_reasoning doc = Some r \<and> r \<noteq> [])
   \<and> row_filtered (render_row (doc\<lparr>processing_error := e\<rparr>)) = row_filtered (render_row doc)
   \<and> row_error (render_row (doc\<lparr>status := s, filter_reasoning := fr\<rparr>)) =
       row_error (render_row doc)"
proof -
  have c: "getStatusColor FILTERED_OUT = ''neutral''"
    by (simp add: getStatusColor_def)
  have r: "(row_filtered (render_row doc) = Some r) =
       (status doc = FILTERED_OUT \<and> filter_reasoning doc = Some r \<and> r \<noteq> [])"
    by (cases "filter_reasoning doc")
       (auto simp: render_row_def guarded_def truthy_def text_of_def)
  have i: "row_filtered (render_row (doc\<lparr>processing_error := e\<rparr>)) = row_filtered (render_row doc)"
    by (simp add: render_row_def)
  have j: "row_error (render_row (doc\<lparr>status := s, filter_reasoning := fr\<rparr>)) =
       row_error (render_row doc)"
    by (simp add: render_row_def)
  from c r i j show ?thesis by simp
qed

text \<open>
  Claim C7 as stated has the reasoning rendered whenever the status is filtered_out and
  \<open>filter_reasoning\<close> is not null. For the empty string, which is not null, the guard
  \<open>doc.filter_reasoning && ...\<close> is false and nothing is rendered.
\<close>

theorem empty_reasoning_not_rendered:
  "status (sample_document\<lparr>status := FILTERED_OUT, filter_reasoning := Some []\<rparr>) = FILTERED_OUT
   \<and> filter_reasoning (sample_document\<lparr>status := FILTERED_OUT, filter_reasoning := Some []\<rparr>) \<noteq> None
   \<and> row_filtered (render_row (sample_document\<lparr>status := FILTERED_OUT, filter_reasoning := Some []\<rparr>)) = None"
  by (simp add: render_row_def guarded_def truthy_def)

text \<open>
  Claim C10. \<open>formatFileSize\<close> ends in the unit \<open>B\<close> if and only if the byte count is
  below 1024, in \<open>KB\<close> if and only if it is at least 1024 and below 1048576, and in
  \<open>MB\<close> if and only if it is at least 1048576. This holds for every integer, so for
  every byte count that is not negative.
\<close>

theorem formatFileSize_unit:
  "(unit_of (formatFileSize bytes) = ''B'') = (bytes < 1024)
   \<and> (unit_of (formatFileSize bytes) = ''KB'') = (1024 \<le> bytes \<and> bytes < 1048576)
   \<and> (unit_of (formatFileSize bytes) = ''MB'') = (1048576 \<le> bytes)"
proof -
  have b: "unit_of (a @ '' B'') = ''B''" for a
    using unit_of_append [of "''B''" a] by simp
  have k: "unit_of (a @ '' KB'') = ''KB''" for a
    using unit_of_append [of "''KB''" a] by simp
  have m: "unit_of (a @ '' MB'') = ''MB''" for a
    using unit_of_append [of "''MB''" a] by simp
  show ?thesis
    by (simp add: formatFileSize_def b k m)
qed

section \<open>The documents API: the query of a list request\<close>

lemma digit_char_set: "d < 10 \<Longrightarrow> digit_char d \<in> set ''0123456789''"
  unfolding digit_char_def by (rule nth_mem) simp

lemma show_nat_digits: "set (show_nat n) \<subseteq> set ''0123456789''"
proof (induction n rule: show_nat.induct)
  case (1 n)
  show ?case
  proof (cases "n < 10")
    case True
    then show ?thesis
      using digit_char_set [of n] by (simp add: show_nat_digit)
  next
    case False
    have "n mod 10 < 10" by simp
    then have "digit_char (n mod 10) \<in> set ''0123456789''" by (rule digit_char_set)
    with False "1.IH" show ?thesis
      by (simp add: show_nat_step)
  qed
qed

lemma show_int_chars: "set (show_int i) \<subseteq> set ''-0123456789''"
proof (cases "i < 0")
  case True
  have "set (show_nat (nat (- i))) \<subseteq> set ''-0123456789''"
    using show_nat_digits [of "nat (- i)"] by (rule subset_trans) simp
  with True show ?thesis by (simp add: show_int_def)
next
  case False
  have "set (show_nat (nat i)) \<subseteq> set ''-0123456789''"
    using show_nat_digits [of "nat i"] by (rule subset_trans) simp
  with False show ?thesis by (simp add: show_int_def)
qed

lemma show_int_no_sep:
  "CHR ''&'' \<notin> set (show_int i)" "CHR ''='' \<notin> set (show_int i)" "CHR ''?'' \<notin> set (show_int i)"
proof -
  have a: "CHR ''&'' \<notin> set ''-0123456789''" by simp
  have e: "CHR ''='' \<notin> set ''-0123456789''" by simp
  have q: "CHR ''?'' \<notin> set ''-0123456789''" by simp
  from a show_int_chars [of i] show "CHR ''&'' \<notin> set (show_int i)" by (rule contra_subsetD[rotated])
  from e show_int_chars [of i] show "CHR ''='' \<notin> set (show_int i)" by (rule contra_subsetD[rotated])
  from q show_int_chars [of i] show "CHR ''?'' \<notin> set (show_int i)" by (rule contra_subsetD[rotated])
qed

lemma split_on_nonempty: "split_on c s \<noteq> []"
  by (induction s) (auto split: list.splits)

lemma split_on_none: "c \<notin> set a \<Longrightarrow> split_on c a = [a]"
  by (induction a) auto

lemma split_on_append: "c \<notin> set a \<Longrightarrow> split_on c (a @ c # r) = a # split_on c r"
  by (induction a) auto

lemma param_of_eq: "CHR ''='' \<notin> set k \<Longrightarrow> param_of (k @ CHR ''='' # v) = (k, v)"
proof -
  assume k: "CHR ''='' \<notin> set k"
  then have t: "takeWhile (\<lambda>c. c \<noteq> CHR ''='') (k @ CHR ''='' # v) = k"
    by (subst takeWhile_append2) auto
  from k have d: "dropWhile (\<lambda>c. c \<noteq> CHR ''='') (k @ CHR ''='' # v) = CHR ''='' # v"
    by (subst dropWhile_append2) auto
  from t d show ?thesis by (simp add: param_of_def)
qed

lemma split_on_prefix:
  "c \<notin> set p \<Longrightarrow> \<exists>seg rest. split_on c (p @ s) = (p @ seg) # rest"
proof (induction p)
  case Nil
  then show ?case
    using split_on_nonempty [of c s] by (cases "split_on c s") auto
next
  case (Cons x p)
  then obtain seg rest where "split_on c (p @ s) = (p @ seg) # rest" by auto
  with Cons.prems show ?case by auto
qed

lemma query_of_endpoint:
  "drop 1 (dropWhile (\<lambda>c. c \<noteq> CHR ''?'') (''/documents/?case_id='' @ r)) = ''case_id='' @ r"
  by simp

lemma split_three:
  assumes "CHR ''&'' \<notin> set a" "CHR ''&'' \<notin> set b"
  shows "split_on CHR ''&'' (''case_id='' @ a @ ''&limit='' @ b @ ''&offset='' @ r) =
           (''case_id='' @ a) # (''limit='' @ b) # split_on CHR ''&'' (''offset='' @ r)"
proof -
  have 1: "split_on CHR ''&'' ((''case_id='' @ a) @ CHR ''&'' # (''limit='' @ b @ ''&offset='' @ r)) =
      (''case_id='' @ a) # split_on CHR ''&'' (''limit='' @ b @ ''&offset='' @ r)"
    by (rule split_on_append) (use assms in simp)
  have 2: "split_on CHR ''&'' ((''limit='' @ b) @ CHR ''&'' # (''offset='' @ r)) =
      (''limit='' @ b) # split_on CHR ''&'' (''offset='' @ r)"
    by (rule split_on_append) (use assms in simp)
  from 1 2 show ?thesis by (simp del: split_on.simps)
qed

lemma param_of_keys:
  "param_of (''case_id='' @ v) = (''case_id'', v)"
  "param_of (''limit='' @ v) = (''limit'', v)"
  "param_of (''offset='' @ v) = (''offset'', v)"
  "param_of (''status='' @ v) = (''status'', v)"
  using param_of_eq [of "''case_id''" v] param_of_eq [of "''limit''" v]
    param_of_eq [of "''offset''" v] param_of_eq [of "''status''" v]
  by simp_all

lemma query_params_falsy:
  assumes "\<not> truthy st"
  shows "query_params (list_endpoint caseId st limit_arg offset_arg) =
           base_params caseId limit_arg offset_arg"
proof -
  let ?a = "show_int caseId" and ?b = "show_int (with_default 100 limit_arg)"
    and ?c = "show_int (with_default 0 offset_arg)"
  have e: "list_endpoint caseId st limit_arg offset_arg =
      ''/documents/?case_id='' @ (?a @ ''&limit='' @ ?b @ ''&offset='' @ ?c)"
    using assms by (simp add: list_endpoint_def)
  have s: "split_on CHR ''&'' (''case_id='' @ ?a @ ''&limit='' @ ?b @ ''&offset='' @ ?c) =
      [''case_id='' @ ?a, ''limit='' @ ?b, ''offset='' @ ?c]"
  proof -
    have "split_on CHR ''&'' (''offset='' @ ?c) = [''offset='' @ ?c]"
      by (rule split_on_none) (simp add: show_int_no_sep)
    then show ?thesis
      by (simp only: split_three [OF show_int_no_sep(1) show_int_no_sep(1)])
  qed
  show ?thesis
    unfolding query_params_def e query_of_endpoint s base_params_def
    by (simp only: list.map param_of_keys)
qed

lemma query_params_truthy:
  assumes "s \<noteq> []"
  shows "query_params (list_endpoint caseId (Some s) limit_arg offset_arg) =
           base_params caseId limit_arg offset_arg
             @ map param_of (split_on CHR ''&'' (''status='' @ s))"
proof -
  let ?a = "show_int caseId" and ?b = "show_int (with_default 100 limit_arg)"
    and ?c = "show_int (with_default 0 offset_arg)"
  have e: "list_endpoint caseId (Some s) limit_arg offset_arg =
      ''/documents/?case_id='' @ (?a @ ''&limit='' @ ?b @ ''&offset='' @ (?c @ ''&status='' @ s))"
    using assms by (simp add: list_endpoint_def truthy_def text_of_def)
  have o: "split_on CHR ''&'' ((''offset='' @ ?c) @ CHR ''&'' # (''status='' @ s)) =
      (''offset='' @ ?c) # split_on CHR ''&'' (''status='' @ s)"
    by (rule split_on_append) (simp add: show_int_no_sep)
  have s: "split_on CHR ''&'' (''case_id='' @ ?a @ ''&limit='' @ ?b @ ''&offset='' @ (?c @ ''&status='' @ s)) =
      [''case_id='' @ ?a, ''limit='' @ ?b, ''offset='' @ ?c] @ split_on CHR ''&'' (''status='' @ s)"
    using o split_three [OF show_int_no_sep(1) show_int_no_sep(1),
        of caseId "with_default 100 limit_arg" "?c @ ''&status='' @ s"]
    by (simp del: split_on.simps)
  show ?thesis
    unfolding query_params_def e query_of_endpoint s base_params_def
    by (simp only: list.map map_append param_of_keys)
qed

lemma status_key_truthy:
  "''status'' \<in> fst ` set (map param_of (split_on CHR ''&'' (''status='' @ s)))"
proof -
  obtain seg rest where "split_on CHR ''&'' (''status='' @ s) = (''status='' @ seg) # rest"
    using split_on_prefix [of "CHR ''&''" "''status=''" s] by auto
  then show ?thesis
    by (simp add: param_of_keys(4) del: append.simps split_on.simps)
qed

lemma status_key_base: "''status'' \<notin> fst ` set (base_params caseId limit_arg offset_arg)"
  by (simp add: base_params_def)

text \<open>
  Claim C8, as the code has it. The query of every list request starts with the
  parameters \<open>case_id\<close>, \<open>limit\<close> (100 when left out) and \<open>offset\<close> (0 when left out),
  with the decimal text of their values. It has a parameter named \<open>status\<close> if and only
  if a status argument was given and is not the empty string: without a status, or with
  the empty string, the query is exactly the three parameters; with a non-empty status
  free of \<open>&\<close> it is the three parameters followed by \<open>status\<close> with that value.
\<close>

theorem list_endpoint_params:
  "take 3 (query_params (list_endpoint caseId st limit_arg offset_arg)) =
       base_params caseId limit_arg offset_arg
   \<and> (''status'' \<in> fst ` set (query_params (list_endpoint caseId st limit_arg offset_arg))) =
       (\<exists>s. st = Some s \<and> s \<noteq> [])
   \<and> query_params (list_endpoint caseId None limit_arg offset_arg) =
       base_params caseId limit_arg offset_arg
   \<and> query_params (list_endpoint caseId (Some []) limit_arg offset_arg) =
       base_params caseId limit_arg offset_arg
   \<and> (s \<noteq> [] \<and> CHR ''&'' \<notin> set s \<longrightarrow>
        query_params (list_endpoint caseId (Some s) limit_arg offset_arg) =
          base_params caseId limit_arg offset_arg @ [(''status'', s)])"
proof -
  let ?q = "\<lambda>st. query_params (list_endpoint caseId st limit_arg offset_arg)"
  let ?b = "base_params caseId limit_arg offset_arg"
  have len: "length ?b = 3" by (simp add: base_params_def)
  have n: "?q None = ?b"
    by (rule query_params_falsy) (simp add: truthy_def)
  have e: "?q (Some []) = ?b"
    by (rule query_params_falsy) (simp add: truthy_def)
  have t: "?q (Some x) = ?b @ map param_of (split_on CHR ''&'' (''status='' @ x))"
    if "x \<noteq> []" for x
    using that by (rule query_params_truthy)
  have 1: "take 3 (?q st) = ?b"
  proof (cases "truthy st")
    case False
    then show ?thesis using len by (simp add: query_params_falsy)
  next
    case True
    then obtain x where "st = Some x" "x \<noteq> []"
      by (cases st) (auto simp: truthy_def)
    then show ?thesis using len t [of x] by simp
  qed
  have 2: "(''status'' \<in> fst ` set (?q st)) = (\<exists>s. st = Some s \<and> s \<noteq> [])"
  proof (cases "truthy st")
    case False
    then have "?q st = ?b" by (rule query_params_falsy)
    moreover from False have "\<not> (\<exists>s. st = Some s \<and> s \<noteq> [])"
      by (auto simp: truthy_def)
    ultimately show ?thesis using status_key_base [of caseId limit_arg offset_arg] by simp
  next
    case True
    then obtain x where x: "st = Some x" "x \<noteq> []"
      by (cases st) (auto simp: truthy_def)
    have "''status'' \<in> fst ` set (?q (Some x))"
      unfolding t [OF x(2)] using status_key_truthy [of x] by auto
    with x show ?thesis by simp
  qed
  have 3: "?q (Some s) = ?b @ [(''status'', s)]" if "s \<noteq> []" "CHR ''&'' \<notin> set s"
  proof -
    have "CHR ''&'' \<notin> set (''status='' @ s)" using that(2) by simp
    then have "split_on CHR ''&'' (''status='' @ s) = [''status='' @ s]"
      by (rule split_on_none)
    with t [OF that(1)] show ?thesis
      by (simp only: list.map param_of_keys)
  qed
  from 1 2 n e 3 show ?thesis by blast
qed

theorem list_endpoint_params_witness:
  "''failed'' \<noteq> [] \<and> CHR ''&'' \<notin> set ''failed''
   \<and> query_params (list_endpoint 3 (Some ''failed'') None None) =
       [(''case_id'', ''3''), (''limit'', ''100''), (''offset'', ''0''), (''status'', ''failed'')]"
  using list_endpoint_params [of 3 "Some ''failed''" None None "''failed''"]
  by (simp add: base_params_def with_default_def show_int_def show_nat_digit show_nat_step
        digit_char_def)

text \<open>
  Claim C8 as stated has the \<open>status\<close> parameter whenever a status argument is
  supplied. The empty string is a supplied argument, and \<open>if (status)\<close> is false for it.
\<close>

theorem empty_status_not_sent:
  "Some [] \<noteq> (None :: string option)
   \<and> ''status'' \<notin> fst ` set (query_params (list_endpoint 3 (Some []) None None))"
proof -
  have "\<not> truthy (Some [])" by (simp add: truthy_def)
  then have "query_params (list_endpoint 3 (Some []) None None) = base_params 3 None None"
    by (rule query_params_falsy)
  then show ?thesis using status_key_base [of 3 None None] by simp
qed

section \<open>The API client: how a response settles\<close>




section \<open>The orchestrator: status transitions\<close>

lemma process_nonempty: "process s rs \<noteq> []"
  by (cases rs) (simp_all split: option.splits)

lemma process_terminal: "is_terminal s \<Longrightarrow> process s rs = [s]"
  by (cases rs) (simp_all add: advance_def)

lemma process_SUMMARIZING:
  "last (process SUMMARIZING rs) = COMPLETED \<Longrightarrow> process SUMMARIZING rs = [SUMMARIZING, COMPLETED]"
proof (cases rs)
  case Nil
  moreover assume "last (process SUMMARIZING rs) = COMPLETED"
  ultimately show ?thesis by simp
next
  case (Cons res rest)
  moreover assume "last (process SUMMARIZING rs) = COMPLETED"
  ultimately show ?thesis
    by (cases res) (simp_all add: advance_def is_terminal_def process_terminal)
qed

lemma process_step:
  assumes "\<not> is_terminal s" "next_stage s = Some n" "last (process s rs) = COMPLETED"
  shows "\<exists>rest. process s rs = s # process n rest \<and> last (process n rest) = COMPLETED"
proof (cases rs)
  case Nil
  with assms show ?thesis by (auto simp: is_terminal_def)
next
  case (Cons res rest)
  show ?thesis
  proof (cases res)
    case Raised
    with Cons assms show ?thesis
      by (simp add: advance_def process_terminal is_terminal_def)
  next
    case (Persisted accept)
    show ?thesis
    proof (cases "s = ANALYZING_CONTENT \<and> \<not> accept")
      case True
      with Cons Persisted assms show ?thesis
        by (simp add: advance_def process_terminal is_terminal_def)
    next
      case False
      with Cons Persisted assms have "process s rs = s # process n rest"
        by (auto simp: advance_def)
      moreover from this assms(3) have "last (process n rest) = COMPLETED"
        by (simp add: process_nonempty)
      ultimately show ?thesis by blast
    qed
  qed
qed

lemma process_completed:
  assumes "last (process UPLOADED rs) = COMPLETED"
  shows "process UPLOADED rs =
     [UPLOADED, DETECTING_TYPE, EXTRACTING_BLOCKS, CLASSIFYING, ANALYZING_CONTENT, CHUNKING,
      SUMMARIZING, COMPLETED]"
proof -
  obtain r1 where 1: "process UPLOADED rs = UPLOADED # process DETECTING_TYPE r1"
      "last (process DETECTING_TYPE r1) = COMPLETED"
    using process_step [OF _ _ assms, of DETECTING_TYPE] by (auto simp: is_terminal_def)
  obtain r2 where 2: "process DETECTING_TYPE r1 = DETECTING_TYPE # process EXTRACTING_BLOCKS r2"
      "last (process EXTRACTING_BLOCKS r2) = COMPLETED"
    using process_step [OF _ _ 1(2), of EXTRACTING_BLOCKS] by (auto simp: is_terminal_def)
  obtain r3 where 3: "process EXTRACTING_BLOCKS r2 = EXTRACTING_BLOCKS # process CLASSIFYING r3"
      "last (process CLASSIFYING r3) = COMPLETED"
    using process_step [OF _ _ 2(2), of CLASSIFYING] by (auto simp: is_terminal_def)
  obtain r4 where 4: "process CLASSIFYING r3 = CLASSIFYING # process ANALYZING_CONTENT r4"
      "last (process ANALYZING_CONTENT r4) = COMPLETED"
    using process_step [OF _ _ 3(2), of ANALYZING_CONTENT] by (auto simp: is_terminal_def)
  obtain r5 where 5: "process ANALYZING_CONTENT r4 = ANALYZING_CONTENT # process CHUNKING r5"
      "last (process CHUNKING r5) = COMPLETED"
    using process_step [OF _ _ 4(2), of CHUNKING] by (auto simp: is_terminal_def)
  obtain r6 where 6: "process CHUNKING r5 = CHUNKING # process SUMMARIZING r6"
      "last (process SUMMARIZING r6) = COMPLETED"
    using process_step [OF _ _ 5(2), of SUMMARIZING] by (auto simp: is_terminal_def)
  from 6(2) have 7: "process SUMMARIZING r6 = [SUMMARIZING, COMPLETED]"
    by (rule process_SUMMARIZING)
  show ?thesis
    by (simp only: 1(1) 2(1) 3(1) 4(1) 5(1) 6(1) 7)
qed

lemma advance_edges:
  assumes "advance s res = Some s'"
  shows "(s, s') \<in> set [(UPLOADED, DETECTING_TYPE), (DETECTING_TYPE, EXTRACTING_BLOCKS),
           (EXTRACTING_BLOCKS, CLASSIFYING), (CLASSIFYING, ANALYZING_CONTENT),
           (ANALYZING_CONTENT, CHUNKING), (ANALYZING_CONTENT, FILTERED_OUT),
           (CHUNKING, SUMMARIZING), (SUMMARIZING, COMPLETED)]
         \<or> (s' = FAILED \<and> s \<notin> {COMPLETED, FAILED, FILTERED_OUT})"
proof (cases res)
  case Raised
  with assms show ?thesis
    by (auto simp: advance_def is_terminal_def split: if_splits)
next
  case (Persisted accept)
  with assms show ?thesis
    by (cases s) (auto simp: advance_def is_terminal_def split: if_splits)
qed

lemma process_follows_advance:
  "Suc i < length (process s rs) \<Longrightarrow>
     \<exists>res. advance (process s rs ! i) res = Some (process s rs ! Suc i)"
proof (induction rs arbitrary: s i)
  case Nil
  then show ?case by simp
next
  case (Cons r rest)
  show ?case
  proof (cases "advance s r")
    case None
    with Cons.prems show ?thesis by simp
  next
    case (Some s')
    then have p: "process s (r # rest) = s # process s' rest" by simp
    show ?thesis
    proof (cases i)
      case 0
      have "process s' rest ! 0 = s'"
        by (cases rest) (simp_all split: option.splits)
      with 0 p Some show ?thesis by auto
    next
      case (Suc j)
      with Cons.prems p have "Suc j < length (process s' rest)" by simp
      then obtain res where "advance (process s' rest ! j) res = Some (process s' rest ! Suc j)"
        using Cons.IH by blast
      with Suc p show ?thesis by auto
    qed
  qed
qed

text \<open>
  Claim C2. Every status update follows one of the edges uploaded to detecting_type,
  detecting_type to extracting_blocks, extracting_blocks to classifying, classifying to
  analyzing_content, analyzing_content to chunking or to filtered_out, chunking to
  summarizing, summarizing to completed, or goes to failed from a status that is not
  absorbing. No update leaves completed, failed or filtered_out, and failed can be
  reached from every other status. Consecutive statuses of a run are joined by one
  update, and a run from uploaded that ends in completed goes through every stage in
  order: no stage is skipped.
\<close>

theorem orchestrator_transitions:
  "(advance s res = Some s' \<longrightarrow>
      (s, s') \<in> set [(UPLOADED, DETECTING_TYPE), (DETECTING_TYPE, EXTRACTING_BLOCKS),
           (EXTRACTING_BLOCKS, CLASSIFYING), (CLASSIFYING, ANALYZING_CONTENT),
           (ANALYZING_CONTENT, CHUNKING), (ANALYZING_CONTENT, FILTERED_OUT),
           (CHUNKING, SUMMARIZING), (SUMMARIZING, COMPLETED)]
      \<or> (s' = FAILED \<and> s \<notin> {COMPLETED, FAILED, FILTERED_OUT}))
   \<and> (s \<in> {COMPLETED, FAILED, FILTERED_OUT} \<longrightarrow> advance s res = None)
   \<and> (s \<notin> {COMPLETED, FAILED, FILTERED_OUT} \<longrightarrow> advance s Raised = Some FAILED)
   \<and> (Suc i < length (process s rs) \<longrightarrow>
        (\<exists>r. advance (process s rs ! i) r = Some (process s rs ! Suc i)))
   \<and> (last (process UPLOADED rs) = COMPLETED \<longrightarrow>
        process UPLOADED rs =
          [UPLOADED, DETECTING_TYPE, EXTRACTING_BLOCKS, CLASSIFYING, ANALYZING_CONTENT,
           CHUNKING, SUMMARIZING, COMPLETED])"
proof -
  have t: "s \<in> {COMPLETED, FAILED, FILTERED_OUT} \<longrightarrow> advance s res = None"
    by (auto simp: advance_def is_terminal_def)
  have f: "s \<notin> {COMPLETED, FAILED, FILTERED_OUT} \<longrightarrow> advance s Raised = Some FAILED"
    by (auto simp: advance_def is_terminal_def)
  from t f advance_edges [of s res s'] process_follows_advance [of i s rs]
    process_completed [of rs]
  show ?thesis by blast
qed

theorem orchestrator_transitions_witness:
  "advance ANALYZING_CONTENT (Persisted False) = Some FILTERED_OUT
   \<and> advance COMPLETED (Persisted True) = None
   \<and> advance CHUNKING Raised = Some FAILED
   \<and> last (process UPLOADED [Persisted True, Persisted True, Persisted True, Persisted True,
        Persisted True, Persisted True, Persisted True]) = COMPLETED
   \<and> process UPLOADED [Persisted True, Persisted True, Persisted True, Persisted True,
        Persisted True, Persisted True, Persisted True] =
       [UPLOADED, DETECTING_TYPE, EXTRACTING_BLOCKS, CLASSIFYING, ANALYZING_CONTENT,
        CHUNKING, SUMMARIZING, COMPLETED]"
proof -
  have l: "last (process UPLOADED [Persisted True, Persisted True, Persisted True,
        Persisted True, Persisted True, Persisted True, Persisted True]) = COMPLETED"
    by (simp add: advance_def is_terminal_def)
  have a: "advance ANALYZING_CONTENT (Persisted False) = Some FILTERED_OUT"
    by (simp add: advance_def is_terminal_def)
  from l a
    orchestrator_transitions [of ANALYZING_CONTENT "Persisted False" FILTERED_OUT 0
      "[Persisted True, Persisted True, Persisted True, Persisted True,
        Persisted True, Persisted True, Persisted True]"]
    orchestrator_transitions [of COMPLETED "Persisted True"]
    orchestrator_transitions [of CHUNKING]
  show ?thesis by simp
qed

section \<open>The orchestrator: the processing error of a document\<close>















end
